theory Spec2Isabelle
  imports Main "HOL-Library.Word"
begin

unbundle bit_operations_syntax

section \<open>uint64set: a three-level set of 64-bit unsigned integers\<close>

text \<open>
  The development embeds \<^verbatim>\<open>lib/uint64set/uint64set.go\<close>. Go's \<^verbatim>\<open>uint16\<close>, \<^verbatim>\<open>uint32\<close> and
  \<^verbatim>\<open>uint64\<close> are words of that width. Slices and fixed arrays are lists; array lengths and
  loop indices, which the code only ever produces non-negative, are natural numbers; the
  cardinality counter \<^verbatim>\<open>itemsCount\<close> is a Go \<^verbatim>\<open>int\<close> which the code decrements, so it is an
  integer. A method that mutates its receiver returns the updated receiver next to its Go
  result.
\<close>

type_synonym uint16 = "16 word"
type_synonym uint32 = "32 word"
type_synonym uint64 = "64 word"

subsection \<open>Library routines the file calls\<close>

text \<open>
  \<^verbatim>\<open>bits.TrailingZeros64\<close> and \<^verbatim>\<open>bits.OnesCount64\<close> of Go's \<^verbatim>\<open>math/bits\<close>: the number of
  zero bits below the lowest set bit (64 for the zero word) and the number of set bits.
\<close>

definition TrailingZeros64 :: "uint64 \<Rightarrow> nat" where
  "TrailingZeros64 w = length (takeWhile (\<lambda>n. \<not> bit w n) [0..<64])"

definition OnesCount64 :: "uint64 \<Rightarrow> nat" where
  "OnesCount64 w = length (filter (bit w) [0..<64])"

text \<open>
  A range loop that returns at the first element equal to \<open>x\<close>:
  \<^verbatim>\<open>for i, v := range xs { if v == x { ... return } }\<close>. The result is the index at which the
  loop body returns, or \<open>None\<close> when the loop runs to its end.
\<close>

fun firstIndex :: "'a \<Rightarrow> 'a list \<Rightarrow> nat option" where
  "firstIndex x [] = None"
| "firstIndex x (v # vs) =
     (if v = x then Some 0
      else (case firstIndex x vs of None \<Rightarrow> None | Some i \<Rightarrow> Some (Suc i)))"

subsection \<open>Leaf bucket: \<^verbatim>\<open>bucket16\<close>\<close>

definition bitsPerBucket :: nat where
  "bitsPerBucket = 2 ^ 16"

definition wordsPerBucket :: nat where
  "wordsPerBucket = bitsPerBucket div 64"

text \<open>
  \<^verbatim>\<open>bits\<close> is a pointer to an array of \<^verbatim>\<open>wordsPerBucket\<close> words: \<open>None\<close> is the nil pointer,
  \<open>Some ws\<close> the array it points to. \<^verbatim>\<open>smallPool\<close> is the inline array of 56 values.
\<close>

record bucket16 =
  bits :: "uint64 list option"
  smallPoolLen :: nat
  smallPool :: "uint16 list"

text \<open>The zero value \<^verbatim>\<open>bucket16{}\<close>.\<close>

definition bucket16_zero :: bucket16 where
  "bucket16_zero = \<lparr>bits = None, smallPoolLen = 0, smallPool = replicate 56 0\<rparr>"

definition getWordNumBitMask :: "uint16 \<Rightarrow> uint16 \<times> uint64" where
  "getWordNumBitMask x = (x div 64, push_bit (unat (x AND 63)) 1)"

definition bucket16_hasInSmallPool :: "bucket16 \<Rightarrow> uint16 \<Rightarrow> bool" where
  "bucket16_hasInSmallPool b x =
     (firstIndex x (take (smallPoolLen b) (smallPool b)) \<noteq> None)"

text \<open>The bitmap branch of \<^verbatim>\<open>bucket16.add\<close>, on the array \<^verbatim>\<open>bits\<close> points to.\<close>

definition bucket16_addBits :: "uint64 list \<Rightarrow> uint16 \<Rightarrow> bool \<times> uint64 list" where
  "bucket16_addBits ws x =
     (let (wordNum, bitMask) = getWordNumBitMask x;
          word = ws ! unat wordNum;
          ok = (word AND bitMask = 0)
      in (ok, ws[unat wordNum := word OR bitMask]))"

text \<open>
  \<^verbatim>\<open>addToSmallPool\<close>. When the pool is full it allocates the bitmap and calls \<^verbatim>\<open>b.add\<close> for
  each of the 56 pool entries and for \<open>x\<close>; \<^verbatim>\<open>bits\<close> is non-nil by then, so each of these
  calls runs the bitmap branch.
\<close>

definition bucket16_addToSmallPool :: "bucket16 \<Rightarrow> uint16 \<Rightarrow> bool \<times> bucket16" where
  "bucket16_addToSmallPool b x =
     (if bucket16_hasInSmallPool b x then (False, b)
      else if smallPoolLen b < length (smallPool b) then
        (True, b\<lparr>smallPool := (smallPool b)[smallPoolLen b := x],
                 smallPoolLen := smallPoolLen b + 1\<rparr>)
      else
        (let ws0 = replicate wordsPerBucket 0;
             ws1 = fold (\<lambda>v ws. snd (bucket16_addBits ws v)) (smallPool b) ws0;
             ws2 = snd (bucket16_addBits ws1 x)
         in (True, b\<lparr>smallPoolLen := 0, bits := Some ws2\<rparr>)))"

definition bucket16_add :: "bucket16 \<Rightarrow> uint16 \<Rightarrow> bool \<times> bucket16" where
  "bucket16_add b x =
     (case bits b of
        None \<Rightarrow> bucket16_addToSmallPool b x
      | Some ws \<Rightarrow>
          (let (ok, ws') = bucket16_addBits ws x in (ok, b\<lparr>bits := Some ws'\<rparr>)))"

definition bucket16_has :: "bucket16 \<Rightarrow> uint16 \<Rightarrow> bool" where
  "bucket16_has b x =
     (case bits b of
        None \<Rightarrow> bucket16_hasInSmallPool b x
      | Some ws \<Rightarrow>
          (let (wordNum, bitMask) = getWordNumBitMask x
           in ws ! unat wordNum AND bitMask \<noteq> 0))"

text \<open>
  \<^verbatim>\<open>delFromSmallPool\<close>: \<^verbatim>\<open>copy(b.smallPool[i:], b.smallPool[i+1:])\<close> moves the entries after
  index \<open>i\<close> one place down and leaves the last slot of the array as it was.
\<close>

definition bucket16_delFromSmallPool :: "bucket16 \<Rightarrow> uint16 \<Rightarrow> bool \<times> bucket16" where
  "bucket16_delFromSmallPool b x =
     (case firstIndex x (take (smallPoolLen b) (smallPool b)) of
        None \<Rightarrow> (False, b)
      | Some i \<Rightarrow>
          (True, b\<lparr>smallPool := take i (smallPool b) @ drop (Suc i) (smallPool b)
                                  @ drop (length (smallPool b) - 1) (smallPool b),
                   smallPoolLen := smallPoolLen b - 1\<rparr>))"

definition bucket16_del :: "bucket16 \<Rightarrow> uint16 \<Rightarrow> bool \<times> bucket16" where
  "bucket16_del b x =
     (case bits b of
        None \<Rightarrow> bucket16_delFromSmallPool b x
      | Some ws \<Rightarrow>
          (let (wordNum, bitMask) = getWordNumBitMask x;
               word = ws ! unat wordNum;
               ok = (word AND bitMask \<noteq> 0)
           in (ok, b\<lparr>bits := Some (ws[unat wordNum := word AND NOT bitMask])\<rparr>)))"

text \<open>
  The inner loop of \<^verbatim>\<open>bucket16.appendTo\<close> on one non-zero word: it takes the lowest set bit
  out of \<open>word\<close> and appends \<open>x64 OR tzn\<close>, until the word is zero.
\<close>

function appendTo_word :: "uint64 \<Rightarrow> uint64 \<Rightarrow> uint64 list \<Rightarrow> uint64 list" where
  "appendTo_word word x64 dst =
     (let tzn = TrailingZeros64 word
      in if tzn \<ge> 64 then dst
         else appendTo_word (word AND NOT (push_bit tzn 1)) x64 (dst @ [x64 OR of_nat tzn]))"
  by pat_completeness auto

lemma TrailingZeros64_bit:
  assumes "TrailingZeros64 w < 64"
  shows "bit w (TrailingZeros64 w)"
proof -
  let ?xs = "takeWhile (\<lambda>n. \<not> bit w n) [0..<64]"
  have l: "length ?xs < length [0..<64]"
    using assms by (simp add: TrailingZeros64_def)
  have "\<not> (\<lambda>n. \<not> bit w n) ([0..<64] ! length ?xs)"
    by (rule nth_length_takeWhile[OF l])
  moreover have "[0..<64] ! length ?xs = length ?xs"
    using l by (metis add_0 length_upt minus_nat.diff_0 nth_upt)
  ultimately show ?thesis by (simp add: TrailingZeros64_def)
qed

lemma TrailingZeros64_least:
  assumes "n < TrailingZeros64 w"
  shows "\<not> bit w n"
proof -
  let ?xs = "takeWhile (\<lambda>n. \<not> bit w n) [0..<64]"
  have n: "n < length ?xs" using assms by (simp add: TrailingZeros64_def)
  have "?xs ! n \<in> set ?xs" using n by simp
  then have "\<not> bit w (?xs ! n)" by (metis (mono_tags, lifting) set_takeWhileD)
  moreover have "?xs ! n = [0..<64] ! n" using n by (rule takeWhile_nth)
  moreover have "n < 64"
    using n length_takeWhile_le[of "\<lambda>n. \<not> bit w n" "[0..<64]"] by simp
  ultimately show ?thesis by simp
qed

lemma TrailingZeros64_le: "TrailingZeros64 w \<le> 64"
  using length_takeWhile_le[of "\<lambda>n. \<not> bit w n" "[0..<64]"]
  by (simp add: TrailingZeros64_def)

lemma clear_lowest_less:
  assumes "TrailingZeros64 w < 64"
  shows "w AND NOT (push_bit (TrailingZeros64 w) 1) < w"
proof -
  let ?t = "TrailingZeros64 w"
  have b: "bit w ?t" by (rule TrailingZeros64_bit[OF assms])
  have le: "w AND NOT (push_bit ?t 1) \<le> w" by (rule word_and_le2)
  have "\<not> bit (w AND NOT (push_bit ?t 1)) ?t"
    using assms by (simp add: bit_simps)
  with b have "w AND NOT (push_bit ?t 1) \<noteq> w" by metis
  with le show ?thesis by simp
qed

lemma clear_lowest_unat_less:
  "TrailingZeros64 w < 64 \<Longrightarrow> unat (w AND NOT (2 ^ TrailingZeros64 w)) < unat w"
  using clear_lowest_less[of w] by (simp add: word_less_nat_alt)

termination appendTo_word
  by (relation "measure (\<lambda>(w, x, d). unat w)")
     (simp_all add: clear_lowest_unat_less not_le)

declare appendTo_word.simps [simp del]

text \<open>The outer loop of the bitmap branch of \<^verbatim>\<open>bucket16.appendTo\<close>, over the words.\<close>

fun appendTo_words :: "uint64 list \<Rightarrow> uint64 \<Rightarrow> uint64 \<Rightarrow> uint64 list \<Rightarrow> uint64 list" where
  "appendTo_words [] hi64 wordNum dst = dst"
| "appendTo_words (word # ws) hi64 wordNum dst =
     (if word = 0 then appendTo_words ws hi64 (wordNum + 1) dst
      else appendTo_words ws hi64 (wordNum + 1)
             (appendTo_word word (hi64 OR (wordNum * 64)) dst))"

text \<open>
  \<^verbatim>\<open>bucket16.appendTo\<close>. In pool mode it sorts the used part of the pool in place
  (\<^verbatim>\<open>sort.Slice\<close>, here the insertion sort \<^const>\<open>sort\<close>) before it emits the values, so the
  receiver is returned too.
\<close>

definition bucket16_appendTo ::
  "bucket16 \<Rightarrow> uint64 list \<Rightarrow> uint32 \<Rightarrow> uint16 \<Rightarrow> uint64 list \<times> bucket16" where
  "bucket16_appendTo b dst hi hi16 =
     (let hi64 = push_bit 32 (ucast hi :: uint64) OR push_bit 16 (ucast hi16 :: uint64)
      in case bits b of
           None \<Rightarrow>
             (let a = take (smallPoolLen b) (smallPool b);
                  a' = (if length a > 1 then sort a else a)
              in (dst @ map (\<lambda>v. hi64 OR ucast v) a',
                  b\<lparr>smallPool := a' @ drop (smallPoolLen b) (smallPool b)\<rparr>))
         | Some ws \<Rightarrow> (appendTo_words ws hi64 0 dst, b))"

text \<open>The fast path of \<^verbatim>\<open>bucket16.intersect\<close>: word-wise AND with a running bit count.\<close>

fun intersect_words :: "uint64 list \<Rightarrow> uint64 list \<Rightarrow> int \<Rightarrow> int \<times> uint64 list" where
  "intersect_words (ax # as) (bx # bs) itemsCount =
     (let bx' = bx AND ax;
          itemsCount' = (if bx' > 0 then itemsCount + int (OnesCount64 bx') else itemsCount);
          (n, bs') = intersect_words as bs itemsCount'
      in (n, bx' # bs'))"
| "intersect_words as bs itemsCount = (itemsCount, bs)"

text \<open>The slow path: every member of \<open>b\<close> missing in \<open>a\<close> is deleted from \<open>b\<close>.\<close>

fun intersect_slow :: "bucket16 \<Rightarrow> uint64 list \<Rightarrow> bucket16 \<Rightarrow> int \<Rightarrow> int \<times> bucket16" where
  "intersect_slow a [] b itemsCount = (itemsCount, b)"
| "intersect_slow a (x # buf) b itemsCount =
     (let x16 = (ucast x :: uint16)
      in if \<not> bucket16_has a x16
         then intersect_slow a buf (snd (bucket16_del b x16)) (itemsCount - 1)
         else intersect_slow a buf b itemsCount)"

definition bucket16_intersect :: "bucket16 \<Rightarrow> bucket16 \<Rightarrow> int \<times> bucket16" where
  "bucket16_intersect b a =
     (case (bits a, bits b) of
        (Some aw, Some bw) \<Rightarrow>
          (let (n, bw') = intersect_words aw bw 0 in (n, b\<lparr>bits := Some bw'\<rparr>))
      | _ \<Rightarrow>
          (let (buf, b1) = bucket16_appendTo b [] 0 0
           in intersect_slow a buf b1 (int (length buf))))"

definition bucket16_copyTo :: "bucket16 \<Rightarrow> bucket16" where
  "bucket16_copyTo b =
     \<lparr>bits = (case bits b of None \<Rightarrow> None | Some ws \<Rightarrow> Some ws),
      smallPoolLen = smallPoolLen b, smallPool = smallPool b\<rparr>"

subsection \<open>Mid bucket: \<^verbatim>\<open>bucket32\<close>\<close>

record bucket32 =
  hi :: uint32
  b16his :: "uint16 list"
  buckets :: "bucket16 list"
  hint :: nat

text \<open>The zero value \<^verbatim>\<open>bucket32{}\<close>.\<close>

definition bucket32_zero :: bucket32 where
  "bucket32_zero = \<lparr>hi = 0, b16his = [], buckets = [], hint = 0\<rparr>"

definition maxUnsortedBuckets :: nat where
  "maxUnsortedBuckets = 32"

function binarySearch16_loop :: "uint16 list \<Rightarrow> uint16 \<Rightarrow> nat \<Rightarrow> nat \<Rightarrow> nat" where
  "binarySearch16_loop u16 x i j =
     (if i < j then
        (let h = (i + j) div 2
         in if h < length u16 \<and> u16 ! h < x
            then binarySearch16_loop u16 x (h + 1) j
            else binarySearch16_loop u16 x i h)
      else i)"
  by pat_completeness auto
termination
  by (relation "measure (\<lambda>(u16, x, i, j). j - i)") auto

declare binarySearch16_loop.simps [simp del]

definition binarySearch16 :: "uint16 list \<Rightarrow> uint16 \<Rightarrow> nat" where
  "binarySearch16 u16 x = binarySearch16_loop u16 x 0 (length u16)"

text \<open>
  \<^verbatim>\<open>sort.Sort(b)\<close> orders the two parallel arrays by key through \<^verbatim>\<open>Less\<close> and \<^verbatim>\<open>Swap\<close>; it is
  modelled by the insertion sort \<^const>\<open>sort_key\<close> on the paired arrays. \<^verbatim>\<open>sort.IsSorted\<close>
  holds when no element is smaller than its predecessor.
\<close>

definition bucket32_Sort :: "bucket32 \<Rightarrow> bucket32" where
  "bucket32_Sort b =
     (let ps = sort_key fst (zip (b16his b) (buckets b))
      in b\<lparr>b16his := map fst ps, buckets := map snd ps\<rparr>)"

definition bucket32_sort :: "bucket32 \<Rightarrow> bucket32" where
  "bucket32_sort b = (if sorted (b16his b) then b else bucket32_Sort b)"

definition bucket32_cloneShallow :: "bucket32 \<Rightarrow> bucket32" where
  "bucket32_cloneShallow b =
     \<lparr>hi = hi b, b16his = [] @ b16his b, buckets = [] @ buckets b, hint = hint b\<rparr>"

definition bucket32_copyTo :: "bucket32 \<Rightarrow> bucket32" where
  "bucket32_copyTo b =
     \<lparr>hi = hi b, b16his = b16his b,
      buckets = (if length (buckets b) > 0 then map bucket16_copyTo (buckets b) else []),
      hint = hint b\<rparr>"

definition bucket32_addBucket16 :: "bucket32 \<Rightarrow> bucket32" where
  "bucket32_addBucket16 b = b\<lparr>buckets := buckets b @ [bucket16_zero]\<rparr>"

definition bucket32_addAllocSmall :: "bucket32 \<Rightarrow> uint16 \<Rightarrow> uint16 \<Rightarrow> bucket32" where
  "bucket32_addAllocSmall b hi' lo =
     (let b1 = b\<lparr>b16his := b16his b @ [hi']\<rparr>;
          b2 = bucket32_addBucket16 b1;
          n = length (buckets b2) - 1;
          b3 = b2\<lparr>buckets := (buckets b2)[n := snd (bucket16_add (buckets b2 ! n) lo)]\<rparr>
      in if length (buckets b3) > maxUnsortedBuckets then bucket32_Sort b3 else b3)"

definition bucket32_addAllocBig :: "bucket32 \<Rightarrow> uint16 \<Rightarrow> uint16 \<Rightarrow> nat \<Rightarrow> bucket32" where
  "bucket32_addAllocBig b hi' lo n =
     (if n \<ge> length (b16his b) then
        (let b1 = b\<lparr>b16his := b16his b @ [hi']\<rparr>;
             b2 = bucket32_addBucket16 b1;
             m = length (buckets b2) - 1
         in b2\<lparr>buckets := (buckets b2)[m := snd (bucket16_add (buckets b2 ! m) lo)]\<rparr>)
      else
        (let his1 = (take (n + 1) (b16his b) @ drop n (b16his b))[n := hi'];
             bs1 = take (n + 1) (buckets b) @ drop n (buckets b)
         in b\<lparr>b16his := his1, buckets := bs1[n := snd (bucket16_add bucket16_zero lo)]\<rparr>))"

text \<open>
  The call \<^verbatim>\<open>n < len(b.buckets) && b.buckets[n].add(lo)\<close> that ends the three lookup paths of
  \<^verbatim>\<open>add\<close>, and its counterpart for \<^verbatim>\<open>del\<close>.
\<close>

definition bucket32_addAt :: "bucket32 \<Rightarrow> nat \<Rightarrow> uint16 \<Rightarrow> bool \<times> bucket32" where
  "bucket32_addAt b n lo =
     (if n < length (buckets b) then
        (let (ok, b16) = bucket16_add (buckets b ! n) lo
         in (ok, b\<lparr>buckets := (buckets b)[n := b16]\<rparr>))
      else (False, b))"

definition bucket32_delAt :: "bucket32 \<Rightarrow> nat \<Rightarrow> uint16 \<Rightarrow> bool \<times> bucket32" where
  "bucket32_delAt b n lo =
     (if n < length (buckets b) then
        (let (ok, b16) = bucket16_del (buckets b ! n) lo
         in (ok, b\<lparr>buckets := (buckets b)[n := b16]\<rparr>))
      else (False, b))"

definition bucket32_addSlow :: "bucket32 \<Rightarrow> uint16 \<Rightarrow> uint16 \<Rightarrow> bool \<times> bucket32" where
  "bucket32_addSlow b hi' lo =
     (if length (buckets b) > maxUnsortedBuckets then
        (let n = binarySearch16 (b16his b) hi';
             b1 = b\<lparr>hint := n\<rparr>
         in if n \<ge> length (b16his b1) \<or> b16his b1 ! n \<noteq> hi'
            then (True, bucket32_addAllocBig b1 hi' lo n)
            else bucket32_addAt b1 n lo)
      else
        (case firstIndex hi' (b16his b) of
           Some i \<Rightarrow> bucket32_addAt (b\<lparr>hint := i\<rparr>) i lo
         | None \<Rightarrow> (True, bucket32_addAllocSmall b hi' lo)))"

definition bucket32_add :: "bucket32 \<Rightarrow> uint32 \<Rightarrow> bool \<times> bucket32" where
  "bucket32_add b x =
     (let hi' = (ucast (drop_bit 16 x) :: uint16);
          lo = (ucast x :: uint16);
          n = hint b
      in if n < length (b16his b) \<and> b16his b ! n = hi'
         then bucket32_addAt b n lo
         else bucket32_addSlow b hi' lo)"

definition bucket32_hasSlow :: "bucket32 \<Rightarrow> uint16 \<Rightarrow> uint16 \<Rightarrow> bool" where
  "bucket32_hasSlow b hi' lo =
     (let n = binarySearch16 (b16his b) hi'
      in if n \<ge> length (b16his b) \<or> b16his b ! n \<noteq> hi' then False
         else n < length (buckets b) \<and> bucket16_has (buckets b ! n) lo)"

definition bucket32_has :: "bucket32 \<Rightarrow> uint32 \<Rightarrow> bool" where
  "bucket32_has b x =
     (let hi' = (ucast (drop_bit 16 x) :: uint16);
          lo = (ucast x :: uint16)
      in if length (buckets b) > maxUnsortedBuckets then bucket32_hasSlow b hi' lo
         else (case firstIndex hi' (b16his b) of
                 Some i \<Rightarrow> i < length (buckets b) \<and> bucket16_has (buckets b ! i) lo
               | None \<Rightarrow> False))"

definition bucket32_delSlow :: "bucket32 \<Rightarrow> uint16 \<Rightarrow> uint16 \<Rightarrow> bool \<times> bucket32" where
  "bucket32_delSlow b hi' lo =
     (if length (buckets b) > maxUnsortedBuckets then
        (let n = binarySearch16 (b16his b) hi';
             b1 = b\<lparr>hint := n\<rparr>
         in if n \<ge> length (b16his b1) \<or> b16his b1 ! n \<noteq> hi' then (False, b1)
            else bucket32_delAt b1 n lo)
      else
        (case firstIndex hi' (b16his b) of
           Some i \<Rightarrow> bucket32_delAt (b\<lparr>hint := i\<rparr>) i lo
         | None \<Rightarrow> (False, b)))"

definition bucket32_del :: "bucket32 \<Rightarrow> uint32 \<Rightarrow> bool \<times> bucket32" where
  "bucket32_del b x =
     (let hi' = (ucast (drop_bit 16 x) :: uint16);
          lo = (ucast x :: uint16);
          n = hint b
      in if n < length (b16his b) \<and> b16his b ! n = hi'
         then bucket32_delAt b n lo
         else bucket32_delSlow b hi' lo)"

text \<open>
  \<^verbatim>\<open>bucket32.intersect\<close> is a merge-join over the two sorted key arrays. Its three inner
  loops are functions of their own: the first zeroes the leaf buckets of \<open>b\<close> whose key is
  below the current key of \<open>a\<close>, the second skips the keys of \<open>a\<close> below the current key of
  \<open>b\<close>, the third zeroes what is left of \<open>b\<close> once \<open>a\<close> is exhausted.
\<close>

function bucket32_intersect_skip_b ::
  "uint16 list \<Rightarrow> uint16 list \<Rightarrow> bucket16 list \<Rightarrow> nat \<Rightarrow> nat \<Rightarrow> bucket16 list \<times> nat" where
  "bucket32_intersect_skip_b bh ah bs i j =
     (if i < length bh \<and> j < length ah \<and> bh ! i < ah ! j
      then bucket32_intersect_skip_b bh ah (bs[i := bucket16_zero]) (i + 1) j
      else (bs, i))"
  by pat_completeness auto
termination
  by (relation "measure (\<lambda>(bh, ah, bs, i, j). length bh - i)") auto

declare bucket32_intersect_skip_b.simps [simp del]

function bucket32_intersect_skip_a ::
  "uint16 list \<Rightarrow> uint16 list \<Rightarrow> nat \<Rightarrow> nat \<Rightarrow> nat" where
  "bucket32_intersect_skip_a bh ah i j =
     (if j < length ah \<and> ah ! j < bh ! i
      then bucket32_intersect_skip_a bh ah i (j + 1)
      else j)"
  by pat_completeness auto
termination
  by (relation "measure (\<lambda>(bh, ah, i, j). length ah - j)") auto

declare bucket32_intersect_skip_a.simps [simp del]

function bucket32_intersect_zero_rest ::
  "uint16 list \<Rightarrow> bucket16 list \<Rightarrow> nat \<Rightarrow> bucket16 list" where
  "bucket32_intersect_zero_rest bh bs i =
     (if i < length bh
      then bucket32_intersect_zero_rest bh (bs[i := bucket16_zero]) (i + 1)
      else bs)"
  by pat_completeness auto
termination
  by (relation "measure (\<lambda>(bh, bs, i). length bh - i)") auto

declare bucket32_intersect_zero_rest.simps [simp del]

lemma bucket32_intersect_skip_b_index:
  "bucket32_intersect_skip_b bh ah bs i j = (bs', i') \<Longrightarrow>
     i \<le> i' \<and> \<not> (i' < length bh \<and> j < length ah \<and> bh ! i' < ah ! j)"
proof (induction bh ah bs i j rule: bucket32_intersect_skip_b.induct)
  case (1 bh ah bs i j)
  show ?case
  proof (cases "i < length bh \<and> j < length ah \<and> bh ! i < ah ! j")
    case True
    with "1.prems" have "bucket32_intersect_skip_b bh ah (bs[i := bucket16_zero]) (i + 1) j = (bs', i')"
      by (simp add: bucket32_intersect_skip_b.simps[of bh ah bs i j])
    from "1.IH"[OF True this] show ?thesis by simp
  next
    case False
    with "1.prems" have "i' = i"
      by (simp add: bucket32_intersect_skip_b.simps[of bh ah bs i j])
    with False show ?thesis by simp
  qed
qed

lemma bucket32_intersect_skip_a_index:
  "bucket32_intersect_skip_a bh ah i j = j' \<Longrightarrow>
     j \<le> j' \<and> \<not> (j' < length ah \<and> ah ! j' < bh ! i)"
proof (induction bh ah i j rule: bucket32_intersect_skip_a.induct)
  case (1 bh ah i j)
  show ?case
  proof (cases "j < length ah \<and> ah ! j < bh ! i")
    case True
    with "1.prems" have "bucket32_intersect_skip_a bh ah i (j + 1) = j'"
      by (simp add: bucket32_intersect_skip_a.simps[of bh ah i j])
    from "1.IH"[OF True this] show ?thesis by simp
  next
    case False
    with "1.prems" have "j' = j"
      by (simp add: bucket32_intersect_skip_a.simps[of bh ah i j])
    with False show ?thesis by simp
  qed
qed

function bucket32_intersect_loop ::
  "uint16 list \<Rightarrow> uint16 list \<Rightarrow> bucket16 list \<Rightarrow> bucket16 list \<Rightarrow> nat \<Rightarrow> nat \<Rightarrow> int
     \<Rightarrow> bucket16 list \<times> int" where
  "bucket32_intersect_loop bh ah as bs i j itemsCount =
     (case bucket32_intersect_skip_b bh ah bs i j of (bs1, i1) \<Rightarrow>
        if i1 \<ge> length bh then (bs1, itemsCount)
        else
          (case bucket32_intersect_skip_a bh ah i1 j of j1 \<Rightarrow>
             if j1 \<ge> length ah
             then (bucket32_intersect_zero_rest bh bs1 i1, itemsCount)
             else if bh ! i1 = ah ! j1 then
               (case bucket16_intersect (bs1 ! i1) (as ! j1) of (n, b16) \<Rightarrow>
                  bucket32_intersect_loop bh ah as (bs1[i1 := b16]) (i1 + 1) (j1 + 1)
                    (itemsCount + n))
             else bucket32_intersect_loop bh ah as bs1 i1 j1 itemsCount))"
  by pat_completeness auto
termination
proof (relation "measure (\<lambda>(bh, ah, as, bs, i, j, c). (length bh - i) + (length ah - j))",
       goal_cases)
  case 1
  show ?case by simp
next
  case (2 bh ah as bs i j itemsCount x y xa ya)
  let ?j1 = "bucket32_intersect_skip_a bh ah y j"
  from 2(1) have sb: "bucket32_intersect_skip_b bh ah bs i j = (x, y)" by simp
  from bucket32_intersect_skip_b_index[OF sb] have i: "i \<le> y" by simp
  from bucket32_intersect_skip_a_index[of bh ah y j ?j1] have j: "j \<le> ?j1" by simp
  from 2(2) 2(3) i j show ?case by simp
next
  case (3 bh ah as bs i j itemsCount x y)
  let ?j1 = "bucket32_intersect_skip_a bh ah y j"
  from 3(1) have sb: "bucket32_intersect_skip_b bh ah bs i j = (x, y)" by simp
  from bucket32_intersect_skip_b_index[OF sb]
  have i: "i \<le> y" and ib: "\<not> (y < length bh \<and> j < length ah \<and> bh ! y < ah ! j)"
    by simp_all
  from bucket32_intersect_skip_a_index[of bh ah y j ?j1]
  have j: "j \<le> ?j1" and jb: "\<not> (?j1 < length ah \<and> ah ! ?j1 < bh ! y)" by simp_all
  have "i < y \<or> j < ?j1"
  proof (rule ccontr)
    assume "\<not> (i < y \<or> j < ?j1)"
    with i j have e: "y = i" "?j1 = j" by simp_all
    from 3(2) 3(3) ib jb e have "bh ! y = ah ! ?j1" by auto
    with 3(4) show False by simp
  qed
  with 3(2) 3(3) i j show ?case by auto
qed

declare bucket32_intersect_loop.simps [simp del]

definition bucket32_intersect :: "bucket32 \<Rightarrow> bucket32 \<Rightarrow> int \<times> bucket32" where
  "bucket32_intersect b a =
     (let a1 = bucket32_sort (bucket32_cloneShallow a);
          b1 = bucket32_sort b;
          (bs, itemsCount) =
             bucket32_intersect_loop (b16his b1) (b16his a1) (buckets a1) (buckets b1) 0 0 0
      in (itemsCount, b1\<lparr>buckets := bs\<rparr>))"

text \<open>
  \<^verbatim>\<open>bucket32.forEach\<close>. The callback \<open>f\<close> is a closure over state of its caller; here it
  takes that state and returns it updated, next to its boolean. The leaf buckets are
  returned too, since \<^verbatim>\<open>appendTo\<close> may sort their pools. The scratch buffer of
  \<^verbatim>\<open>partBufPool\<close> is emptied before each use (\<^verbatim>\<open>buf[:0]\<close>), so each part starts from \<open>[]\<close>.
\<close>

fun bucket32_forEach_loop ::
  "(uint64 list \<Rightarrow> 'st \<Rightarrow> bool \<times> 'st) \<Rightarrow> uint32 \<Rightarrow> uint16 list \<Rightarrow> bucket16 list \<Rightarrow> 'st
     \<Rightarrow> bool \<times> bucket16 list \<times> 'st" where
  "bucket32_forEach_loop f h his [] st = (True, [], st)"
| "bucket32_forEach_loop f h his (b # bs) st =
     (let (buf, b') = bucket16_appendTo b [] h (hd his);
          (continue, st') = f buf st
      in if \<not> continue then (False, b' # bs, st')
         else (let (r, bs', st'') = bucket32_forEach_loop f h (tl his) bs st'
               in (r, b' # bs', st'')))"

definition bucket32_forEach ::
  "bucket32 \<Rightarrow> (uint64 list \<Rightarrow> 'st \<Rightarrow> bool \<times> 'st) \<Rightarrow> 'st \<Rightarrow> bool \<times> bucket32 \<times> 'st" where
  "bucket32_forEach b f st =
     (let (r, bs, st') = bucket32_forEach_loop f (hi b) (b16his b) (buckets b) st
      in (r, b\<lparr>buckets := bs\<rparr>, st'))"

fun bucket32_appendTo_loop ::
  "uint32 \<Rightarrow> uint16 list \<Rightarrow> bucket16 list \<Rightarrow> uint64 list \<Rightarrow> uint64 list \<times> bucket16 list" where
  "bucket32_appendTo_loop h his [] dst = (dst, [])"
| "bucket32_appendTo_loop h his (b # bs) dst =
     (let (dst1, b') = bucket16_appendTo b dst h (hd his);
          (dst2, bs') = bucket32_appendTo_loop h (tl his) bs dst1
      in (dst2, b' # bs'))"

definition bucket32_appendTo :: "bucket32 \<Rightarrow> uint64 list \<Rightarrow> uint64 list \<times> bucket32" where
  "bucket32_appendTo b dst =
     (let b1 = (if length (buckets b) \<le> maxUnsortedBuckets then bucket32_sort b else b);
          (dst', bs) = bucket32_appendTo_loop (hi b1) (b16his b1) (buckets b1) dst
      in (dst', b1\<lparr>buckets := bs\<rparr>))"

subsection \<open>Top level: \<^verbatim>\<open>Set\<close>\<close>

record Set =
  itemsCount :: int
  set_buckets :: "bucket32 list"

text \<open>The zero value \<^verbatim>\<open>Set{}\<close>.\<close>

definition Set_zero :: Set where
  "Set_zero = \<lparr>itemsCount = 0, set_buckets = []\<rparr>"

definition Set_Clone :: "Set \<Rightarrow> Set" where
  "Set_Clone s =
     (if itemsCount s = 0 then Set_zero
      else \<lparr>itemsCount = itemsCount s, set_buckets = map bucket32_copyTo (set_buckets s)\<rparr>)"

definition Set_cloneShallow :: "Set \<Rightarrow> Set" where
  "Set_cloneShallow s = \<lparr>itemsCount = itemsCount s, set_buckets = [] @ set_buckets s\<rparr>"

definition Set_Len :: "Set \<Rightarrow> int" where
  "Set_Len s = itemsCount s"

definition Set_addBucket32 :: "Set \<Rightarrow> Set" where
  "Set_addBucket32 s = s\<lparr>set_buckets := set_buckets s @ [bucket32_zero]\<rparr>"

definition Set_addAlloc :: "Set \<Rightarrow> uint32 \<Rightarrow> uint32 \<Rightarrow> Set" where
  "Set_addAlloc s h lo =
     (let s1 = Set_addBucket32 s;
          n = length (set_buckets s1) - 1;
          b32 = (set_buckets s1 ! n)\<lparr>hi := h\<rparr>;
          b32' = snd (bucket32_add b32 lo)
      in s1\<lparr>set_buckets := (set_buckets s1)[n := b32'], itemsCount := itemsCount s1 + 1\<rparr>)"

definition Set_Add :: "Set \<Rightarrow> uint64 \<Rightarrow> Set" where
  "Set_Add s x =
     (let h = (ucast (drop_bit 32 x) :: uint32);
          lo = (ucast x :: uint32)
      in case firstIndex h (map hi (set_buckets s)) of
           Some i \<Rightarrow>
             (let (ok, b32) = bucket32_add (set_buckets s ! i) lo;
                  s1 = s\<lparr>set_buckets := (set_buckets s)[i := b32]\<rparr>
              in if ok then s1\<lparr>itemsCount := itemsCount s1 + 1\<rparr> else s1)
         | None \<Rightarrow> Set_addAlloc s h lo)"

definition Set_Has :: "Set \<Rightarrow> uint64 \<Rightarrow> bool" where
  "Set_Has s x =
     (let h = (ucast (drop_bit 32 x) :: uint32);
          lo = (ucast x :: uint32)
      in case firstIndex h (map hi (set_buckets s)) of
           Some i \<Rightarrow> bucket32_has (set_buckets s ! i) lo
         | None \<Rightarrow> False)"

definition Set_Del :: "Set \<Rightarrow> uint64 \<Rightarrow> Set" where
  "Set_Del s x =
     (let h = (ucast (drop_bit 32 x) :: uint32);
          lo = (ucast x :: uint32)
      in case firstIndex h (map hi (set_buckets s)) of
           Some i \<Rightarrow>
             (let (ok, b32) = bucket32_del (set_buckets s ! i) lo;
                  s1 = s\<lparr>set_buckets := (set_buckets s)[i := b32]\<rparr>
              in if ok then s1\<lparr>itemsCount := itemsCount s1 - 1\<rparr> else s1)
         | None \<Rightarrow> s)"

text \<open>
  \<^verbatim>\<open>Set.sort\<close>: \<^verbatim>\<open>sort.Sort\<close> on the mid buckets by their \<^verbatim>\<open>hi\<close>, when \<^verbatim>\<open>sort.IsSorted\<close> fails.
  The library routine is modelled by the insertion sort \<^const>\<open>sort_key\<close>, which is what
  Go runs on slices of at most 12 elements and which keeps buckets of equal \<^verbatim>\<open>hi\<close> in their
  order.
\<close>

definition Set_sort :: "Set \<Rightarrow> Set" where
  "Set_sort s =
     (if sorted (map hi (set_buckets s)) then s
      else s\<lparr>set_buckets := sort_key hi (set_buckets s)\<rparr>)"

fun Set_AppendTo_loop :: "bucket32 list \<Rightarrow> uint64 list \<Rightarrow> uint64 list \<times> bucket32 list" where
  "Set_AppendTo_loop [] dst = (dst, [])"
| "Set_AppendTo_loop (b # bs) dst =
     (let (dst1, b') = bucket32_appendTo b dst;
          (dst2, bs') = Set_AppendTo_loop bs dst1
      in (dst2, b' # bs'))"

text \<open>
  \<^verbatim>\<open>Set.AppendTo\<close> on a non-nil receiver. The pre-allocation only grows the capacity of
  \<open>dst\<close> and keeps its contents and length.
\<close>

definition Set_AppendTo :: "Set \<Rightarrow> uint64 list \<Rightarrow> uint64 list \<times> Set" where
  "Set_AppendTo s dst =
     (let s1 = Set_sort s;
          (dst', bs) = Set_AppendTo_loop (set_buckets s1) dst
      in (dst', s1\<lparr>set_buckets := bs\<rparr>))"

fun Set_ForEach_loop ::
  "(uint64 list \<Rightarrow> 'st \<Rightarrow> bool \<times> 'st) \<Rightarrow> bucket32 list \<Rightarrow> 'st \<Rightarrow> bucket32 list \<times> 'st" where
  "Set_ForEach_loop f [] st = ([], st)"
| "Set_ForEach_loop f (b # bs) st =
     (let (r, b', st') = bucket32_forEach b f st
      in if \<not> r then (b' # bs, st')
         else (let (bs', st'') = Set_ForEach_loop f bs st' in (b' # bs', st'')))"

definition Set_ForEach ::
  "Set \<Rightarrow> (uint64 list \<Rightarrow> 'st \<Rightarrow> bool \<times> 'st) \<Rightarrow> 'st \<Rightarrow> Set \<times> 'st" where
  "Set_ForEach s f st =
     (let (bs, st') = Set_ForEach_loop f (set_buckets s) st
      in (s\<lparr>set_buckets := bs\<rparr>, st'))"

text \<open>
  \<^verbatim>\<open>Set.union\<close> returns the receiver and the operand, both as the call leaves them. The
  closure passed to \<^verbatim>\<open>ForEach\<close> adds each value of the part to \<open>s\<close> and returns true.
\<close>

definition Set_union :: "Set \<Rightarrow> Set \<Rightarrow> bool \<Rightarrow> Set \<times> Set" where
  "Set_union s a mayOwn =
     (let (a0, s0) = (if mayOwn \<and> Set_Len s < Set_Len a then (s, a) else (a, s))
      in if Set_Len a0 = 0 then (s0, a0)
         else if Set_Len s0 = 0 then (Set_Clone a0, a0)
         else (let (a1, s1) =
                     Set_ForEach a0 (\<lambda>part st. (True, fold (\<lambda>x st'. Set_Add st' x) part st)) s0
               in (s1, a1)))"

definition Set_Union :: "Set \<Rightarrow> Set \<Rightarrow> Set \<times> Set" where
  "Set_Union s a = Set_union s a False"

text \<open>
  \<^verbatim>\<open>Set.Intersect\<close> is the same merge-join one level up, on the \<^verbatim>\<open>hi\<close> fields of the mid
  buckets. An unmatched mid bucket of \<open>s\<close> is overwritten by \<^verbatim>\<open>bucket32{}\<close>, which resets its
  \<^verbatim>\<open>hi\<close> to 0 as well; the comparisons read the array as it is at that moment.
\<close>

function Set_Intersect_skip_s ::
  "bucket32 list \<Rightarrow> bucket32 list \<Rightarrow> nat \<Rightarrow> nat \<Rightarrow> bucket32 list \<times> nat" where
  "Set_Intersect_skip_s sb ab i j =
     (if i < length sb \<and> j < length ab \<and> hi (sb ! i) < hi (ab ! j)
      then Set_Intersect_skip_s (sb[i := bucket32_zero]) ab (i + 1) j
      else (sb, i))"
  by pat_completeness auto
termination
  by (relation "measure (\<lambda>(sb, ab, i, j). length sb - i)") auto

declare Set_Intersect_skip_s.simps [simp del]

function Set_Intersect_skip_a ::
  "bucket32 list \<Rightarrow> bucket32 list \<Rightarrow> nat \<Rightarrow> nat \<Rightarrow> nat" where
  "Set_Intersect_skip_a sb ab i j =
     (if j < length ab \<and> hi (ab ! j) < hi (sb ! i)
      then Set_Intersect_skip_a sb ab i (j + 1)
      else j)"
  by pat_completeness auto
termination
  by (relation "measure (\<lambda>(sb, ab, i, j). length ab - j)") auto

declare Set_Intersect_skip_a.simps [simp del]

function Set_Intersect_zero_rest :: "bucket32 list \<Rightarrow> nat \<Rightarrow> bucket32 list" where
  "Set_Intersect_zero_rest sb i =
     (if i < length sb
      then Set_Intersect_zero_rest (sb[i := bucket32_zero]) (i + 1)
      else sb)"
  by pat_completeness auto
termination
  by (relation "measure (\<lambda>(sb, i). length sb - i)") auto

declare Set_Intersect_zero_rest.simps [simp del]

lemma Set_Intersect_skip_s_index:
  "Set_Intersect_skip_s sb ab i j = (sb', i') \<Longrightarrow>
     length sb' = length sb \<and> i \<le> i' \<and>
     \<not> (i' < length sb' \<and> j < length ab \<and> hi (sb' ! i') < hi (ab ! j))"
proof (induction sb ab i j rule: Set_Intersect_skip_s.induct)
  case (1 sb ab i j)
  show ?case
  proof (cases "i < length sb \<and> j < length ab \<and> hi (sb ! i) < hi (ab ! j)")
    case True
    with "1.prems" have "Set_Intersect_skip_s (sb[i := bucket32_zero]) ab (i + 1) j = (sb', i')"
      by (simp add: Set_Intersect_skip_s.simps[of sb ab i j])
    from "1.IH"[OF True this] show ?thesis by simp
  next
    case False
    with "1.prems" have "i' = i" "sb' = sb"
      by (simp_all add: Set_Intersect_skip_s.simps[of sb ab i j])
    with False show ?thesis by simp
  qed
qed

lemma Set_Intersect_skip_a_index:
  "Set_Intersect_skip_a sb ab i j = j' \<Longrightarrow>
     j \<le> j' \<and> \<not> (j' < length ab \<and> hi (ab ! j') < hi (sb ! i))"
proof (induction sb ab i j rule: Set_Intersect_skip_a.induct)
  case (1 sb ab i j)
  show ?case
  proof (cases "j < length ab \<and> hi (ab ! j) < hi (sb ! i)")
    case True
    with "1.prems" have "Set_Intersect_skip_a sb ab i (j + 1) = j'"
      by (simp add: Set_Intersect_skip_a.simps[of sb ab i j])
    from "1.IH"[OF True this] show ?thesis by simp
  next
    case False
    with "1.prems" have "j' = j"
      by (simp add: Set_Intersect_skip_a.simps[of sb ab i j])
    with False show ?thesis by simp
  qed
qed

function Set_Intersect_loop ::
  "bucket32 list \<Rightarrow> bucket32 list \<Rightarrow> nat \<Rightarrow> nat \<Rightarrow> int \<Rightarrow> bucket32 list \<times> int" where
  "Set_Intersect_loop sb ab i j count =
     (case Set_Intersect_skip_s sb ab i j of (sb1, i1) \<Rightarrow>
        if i1 \<ge> length sb1 then (sb1, count)
        else
          (case Set_Intersect_skip_a sb1 ab i1 j of j1 \<Rightarrow>
             if j1 \<ge> length ab
             then (Set_Intersect_zero_rest sb1 i1, count)
             else if hi (sb1 ! i1) = hi (ab ! j1) then
               (case bucket32_intersect (sb1 ! i1) (ab ! j1) of (n, b32) \<Rightarrow>
                  Set_Intersect_loop (sb1[i1 := b32]) ab (i1 + 1) (j1 + 1) (count + n))
             else Set_Intersect_loop sb1 ab i1 j1 count))"
  by pat_completeness auto
termination
proof (relation "measure (\<lambda>(sb, ab, i, j, c). (length sb - i) + (length ab - j))",
       goal_cases)
  case 1
  show ?case by simp
next
  case (2 sb ab i j count x y xa ya)
  let ?j1 = "Set_Intersect_skip_a x ab y j"
  from 2(1) have sb: "Set_Intersect_skip_s sb ab i j = (x, y)" by simp
  from Set_Intersect_skip_s_index[OF sb] have i: "i \<le> y" "length x = length sb" by simp_all
  from Set_Intersect_skip_a_index[of x ab y j ?j1] have j: "j \<le> ?j1" by simp
  from 2(2) 2(3) i j show ?case by simp
next
  case (3 sb ab i j count x y)
  let ?j1 = "Set_Intersect_skip_a x ab y j"
  from 3(1) have sb: "Set_Intersect_skip_s sb ab i j = (x, y)" by simp
  from Set_Intersect_skip_s_index[OF sb]
  have i: "i \<le> y" "length x = length sb"
    and ib: "\<not> (y < length x \<and> j < length ab \<and> hi (x ! y) < hi (ab ! j))"
    by simp_all
  from Set_Intersect_skip_a_index[of x ab y j ?j1]
  have j: "j \<le> ?j1" and jb: "\<not> (?j1 < length ab \<and> hi (ab ! ?j1) < hi (x ! y))" by simp_all
  have "i < y \<or> j < ?j1"
  proof (rule ccontr)
    assume "\<not> (i < y \<or> j < ?j1)"
    with i j have e: "y = i" "?j1 = j" by simp_all
    from 3(2) 3(3) ib jb e have "hi (x ! y) = hi (ab ! ?j1)" by auto
    with 3(4) show False by simp
  qed
  with 3(2) 3(3) i j show ?case by auto
qed

declare Set_Intersect_loop.simps [simp del]

definition Set_Intersect :: "Set \<Rightarrow> Set \<Rightarrow> Set" where
  "Set_Intersect s a =
     (if Set_Len s = 0 \<or> Set_Len a = 0 then Set_zero
      else
        (let a1 = Set_sort (Set_cloneShallow a);
             s1 = Set_sort s;
             (sb, itemsCount') = Set_Intersect_loop (set_buckets s1) (set_buckets a1) 0 0 0
         in s1\<lparr>set_buckets := sb, itemsCount := itemsCount'\<rparr>))"

subsection \<open>Methods called through a pointer that may be nil\<close>

text \<open>
  The definitions above are the method bodies on a receiver that exists. A \<^verbatim>\<open>*Set\<close> may also
  be nil, here \<open>None\<close>. \<^verbatim>\<open>Len\<close>, \<^verbatim>\<open>Has\<close>, \<^verbatim>\<open>AppendTo\<close> and \<^verbatim>\<open>ForEach\<close> test \<^verbatim>\<open>s == nil\<close> first and
  return; \<^verbatim>\<open>Add\<close> and \<^verbatim>\<open>Del\<close> have no such test and read \<^verbatim>\<open>s.buckets\<close> at once, which on a nil
  pointer is a run-time panic.
\<close>

datatype panic = NilPointerDereference

definition Set_Len_ptr :: "Set option \<Rightarrow> int" where
  "Set_Len_ptr p = (case p of None \<Rightarrow> 0 | Some s \<Rightarrow> Set_Len s)"

definition Set_Has_ptr :: "Set option \<Rightarrow> uint64 \<Rightarrow> bool" where
  "Set_Has_ptr p x = (case p of None \<Rightarrow> False | Some s \<Rightarrow> Set_Has s x)"

definition Set_Add_ptr :: "Set option \<Rightarrow> uint64 \<Rightarrow> panic + Set" where
  "Set_Add_ptr p x = (case p of None \<Rightarrow> Inl NilPointerDereference | Some s \<Rightarrow> Inr (Set_Add s x))"

definition Set_Del_ptr :: "Set option \<Rightarrow> uint64 \<Rightarrow> panic + Set" where
  "Set_Del_ptr p x = (case p of None \<Rightarrow> Inl NilPointerDereference | Some s \<Rightarrow> Inr (Set_Del s x))"

definition Set_AppendTo_ptr :: "Set option \<Rightarrow> uint64 list \<Rightarrow> uint64 list \<times> Set option" where
  "Set_AppendTo_ptr p dst =
     (case p of None \<Rightarrow> (dst, None)
      | Some s \<Rightarrow> (let (dst', s') = Set_AppendTo s dst in (dst', Some s')))"

definition Set_ForEach_ptr ::
  "Set option \<Rightarrow> (uint64 list \<Rightarrow> 'st \<Rightarrow> bool \<times> 'st) \<Rightarrow> 'st \<Rightarrow> Set option \<times> 'st" where
  "Set_ForEach_ptr p f st =
     (case p of None \<Rightarrow> (None, st)
      | Some s \<Rightarrow> (let (s', st') = Set_ForEach s f st in (Some s', st')))"

section \<open>What a bucket holds\<close>

text \<open>
  The value \<open>x\<close> is in a bitmap when bit \<open>x mod 64\<close> of word \<open>x div 64\<close> is set. The members
  of a leaf bucket are the used part of its pool, or the values of its bitmap. \<open>wf16\<close> is the
  shape every leaf bucket the code builds has: the pool array has 56 slots, its used part
  has no value twice, and the bitmap, once allocated, has \<^verbatim>\<open>wordsPerBucket\<close> words.
\<close>

definition bits_member :: "uint64 list \<Rightarrow> uint16 \<Rightarrow> bool" where
  "bits_member ws x = bit (ws ! (unat x div 64)) (unat x mod 64)"

definition members16 :: "bucket16 \<Rightarrow> uint16 set" where
  "members16 b =
     (case bits b of
        None \<Rightarrow> set (take (smallPoolLen b) (smallPool b))
      | Some ws \<Rightarrow> {x. bits_member ws x})"

definition wf16 :: "bucket16 \<Rightarrow> bool" where
  "wf16 b \<longleftrightarrow>
     length (smallPool b) = 56 \<and>
     (case bits b of
        None \<Rightarrow> smallPoolLen b \<le> 56 \<and> distinct (take (smallPoolLen b) (smallPool b))
      | Some ws \<Rightarrow> length ws = wordsPerBucket)"

lemma unat_div64: "unat (x div 64 :: uint16) = unat x div 64"
  by (simp add: unat_div)

lemma unat_and63: "unat (x AND 63 :: uint16) = unat x mod 64"
proof -
  have "x AND 63 = take_bit 6 x" by (simp add: take_bit_eq_mask mask_eq_exp_minus_1)
  then have "x AND 63 = x mod 64" by (simp add: take_bit_eq_mod)
  then show ?thesis by (simp add: unat_mod)
qed

lemma wordNum_lt: "unat (x :: uint16) div 64 < 1024"
proof -
  have "unat x < 2 ^ 16" using unsigned_less[of x, where 'a=nat] by simp
  then show ?thesis by simp
qed

lemma and_bit_ne0: "(w AND push_bit k 1 \<noteq> (0::uint64)) = bit w k"
  by (simp add: bit_iff_and_push_bit_not_eq_0)

lemma and_bit_ne0': "(w AND 2 ^ k \<noteq> (0::uint64)) = bit w k"
  using and_bit_ne0[of w k] by simp

lemma and_bit_eq0': "(w AND 2 ^ k = (0::uint64)) = (\<not> bit w k)"
  using and_bit_ne0'[of w k] by blast


lemma getWordNumBitMask_eq:
  "getWordNumBitMask x = (wn, m) \<Longrightarrow> unat wn = unat x div 64 \<and> m = push_bit (unat x mod 64) 1"
  by (auto simp: getWordNumBitMask_def unat_div64 unat_and63)

lemma firstIndex_None: "firstIndex x xs = None \<longleftrightarrow> x \<notin> set xs"
  by (induction xs) (auto split: option.splits)

lemma firstIndex_Some:
  "firstIndex x xs = Some i \<longleftrightarrow> i < length xs \<and> xs ! i = x \<and> (\<forall>j<i. xs ! j \<noteq> x)"
proof (induction xs arbitrary: i)
  case Nil
  then show ?case by simp
next
  case (Cons v vs)
  show ?case
  proof (cases "v = x")
    case True
    then show ?thesis by (cases i) auto
  next
    case False
    show ?thesis
    proof (cases i)
      case 0
      with False show ?thesis by (auto split: option.splits)
    next
      case (Suc k)
      have "(\<forall>j<Suc k. (v # vs) ! j \<noteq> x) \<longleftrightarrow> (\<forall>j<k. vs ! j \<noteq> x)"
        using False by (auto simp: less_Suc_eq_0_disj)
      with Suc False Cons.IH[of k] show ?thesis by (auto split: option.splits)
    qed
  qed
qed

lemma bucket16_has_members: "wf16 b \<Longrightarrow> bucket16_has b x = (x \<in> members16 b)"
  by (auto simp: bucket16_has_def members16_def bucket16_hasInSmallPool_def firstIndex_None
      bits_member_def and_bit_ne0' and_bit_eq0' dest!: getWordNumBitMask_eq split: option.splits prod.splits)


lemma uint16_eq_div_mod:
  "(x :: uint16) = y \<longleftrightarrow> unat x div 64 = unat y div 64 \<and> unat x mod 64 = unat y mod 64"
proof
  assume "unat x div 64 = unat y div 64 \<and> unat x mod 64 = unat y mod 64"
  then have "unat x = unat y" by (metis div_mult_mod_eq)
  then show "x = y" by (simp add: word_unat_eq_iff)
qed simp

lemma bit_set_uint64: "bit (w OR 2 ^ m :: uint64) n \<longleftrightarrow> bit w n \<or> (n = m \<and> m < 64)"
  by (auto simp: bit_simps)

lemma bit_clear_uint64: "bit (w AND NOT (2 ^ m) :: uint64) n \<longleftrightarrow> bit w n \<and> n \<noteq> m"
  by (auto simp: bit_simps dest: bit_imp_le_length)

lemma bucket16_addBits_eq:
  "bucket16_addBits ws x =
     (\<not> bits_member ws x,
      ws[unat x div 64 := ws ! (unat x div 64) OR 2 ^ (unat x mod 64)])"
  by (auto simp: bucket16_addBits_def bits_member_def and_bit_eq0' Let_def
      dest!: getWordNumBitMask_eq split: prod.splits)

lemma bits_member_addBits:
  assumes "length ws = wordsPerBucket"
  shows "bits_member (snd (bucket16_addBits ws x)) y \<longleftrightarrow> y = x \<or> bits_member ws y"
proof -
  have k: "unat x div 64 < length ws" "unat y div 64 < length ws"
    using assms wordNum_lt by (simp_all add: wordsPerBucket_def bitsPerBucket_def)
  have m: "unat x mod 64 < 64" by simp
  show ?thesis
    using k m
    by (auto simp: bucket16_addBits_eq bits_member_def nth_list_update bit_set_uint64
        uint16_eq_div_mod[of y x])
qed

lemma length_addBits [simp]: "length (snd (bucket16_addBits ws x)) = length ws"
  by (simp add: bucket16_addBits_eq)

lemma fold_addBits:
  "length ws = wordsPerBucket \<Longrightarrow>
   length (fold (\<lambda>v ws. snd (bucket16_addBits ws v)) vs ws) = wordsPerBucket \<and>
   (bits_member (fold (\<lambda>v ws. snd (bucket16_addBits ws v)) vs ws) y
      \<longleftrightarrow> y \<in> set vs \<or> bits_member ws y)"
proof (induction vs arbitrary: ws)
  case Nil
  then show ?case by simp
next
  case (Cons v vs)
  have l: "length (snd (bucket16_addBits ws v)) = wordsPerBucket" using Cons.prems by simp
  from Cons.IH[OF l] bits_member_addBits[OF Cons.prems, of v y]
  show ?case by auto
qed

lemma bits_member_zero: "\<not> bits_member (replicate wordsPerBucket 0) y"
  using wordNum_lt[of y]
  by (simp add: bits_member_def wordsPerBucket_def bitsPerBucket_def)

lemma bucket16_add_members:
  assumes "wf16 b" and "bucket16_add b x = (ok, b')"
  shows "ok = (x \<notin> members16 b) \<and> members16 b' = insert x (members16 b) \<and> wf16 b'"
proof (cases "bits b")
  case (Some ws)
  with assms(1) have l: "length ws = wordsPerBucket" by (simp add: wf16_def)
  from Some assms(2) have ok: "ok = (\<not> bits_member ws x)"
    and b': "b' = b\<lparr>bits := Some (snd (bucket16_addBits ws x))\<rparr>"
    by (auto simp: bucket16_add_def bucket16_addBits_eq)
  from assms(1) Some l show ?thesis
    by (auto simp: ok b' members16_def wf16_def bits_member_addBits[OF l])
next
  case None
  let ?n = "smallPoolLen b" and ?p = "smallPool b"
  from None assms(1) have wf: "length ?p = 56" "?n \<le> 56" "distinct (take ?n ?p)"
    by (simp_all add: wf16_def)
  from None have m: "members16 b = set (take ?n ?p)" by (simp add: members16_def)
  show ?thesis
  proof (cases "x \<in> set (take ?n ?p)")
    case True
    with None assms(2) have "ok = False" "b' = b"
      by (auto simp: bucket16_add_def bucket16_addToSmallPool_def bucket16_hasInSmallPool_def
          firstIndex_None)
    with True m assms(1) show ?thesis by auto
  next
    case False
    show ?thesis
    proof (cases "?n < length ?p")
      case True
      with False None assms(2) have ok: "ok = True"
        and b': "b' = b\<lparr>smallPool := ?p[?n := x], smallPoolLen := ?n + 1\<rparr>"
        by (auto simp: bucket16_add_def bucket16_addToSmallPool_def bucket16_hasInSmallPool_def
            firstIndex_None)
      have t: "take (Suc ?n) (?p[?n := x]) = take ?n ?p @ [x]"
        using True by (simp add: take_Suc_conv_app_nth)
      from wf True False None show ?thesis
        unfolding ok b' wf16_def members16_def
        by (simp add: t)
    next
      case full: False
      with wf have n: "?n = 56" by simp
      let ?ws1 = "fold (\<lambda>v ws. snd (bucket16_addBits ws v)) ?p (replicate wordsPerBucket 0)"
      let ?ws2 = "snd (bucket16_addBits ?ws1 x)"
      from False full None assms(2) have ok: "ok = True"
        and b': "b' = b\<lparr>smallPoolLen := 0, bits := Some ?ws2\<rparr>"
        by (auto simp: bucket16_add_def bucket16_addToSmallPool_def bucket16_hasInSmallPool_def
            firstIndex_None Let_def)
      have f: "length ?ws1 = wordsPerBucket"
        "\<And>y. bits_member ?ws1 y \<longleftrightarrow> y \<in> set ?p"
        using fold_addBits[of "replicate wordsPerBucket 0" ?p] bits_member_zero by simp_all
      have tk: "take ?n ?p = ?p" using wf n by simp
      have "members16 b' = insert x (set ?p)"
        by (auto simp: b' members16_def bits_member_addBits[OF f(1)] f(2))
      moreover have "wf16 b'" using wf f(1) by (simp add: b' wf16_def)
      ultimately show ?thesis using False m tk ok by simp
    qed
  qed
qed


subsection \<open>Promotion of a full pool\<close>

definition pool56 :: "uint16 list" where
  "pool56 = [1000, 1017, 1034, 1051, 1068, 1085, 1102, 1119, 1136, 1153, 1170, 1187, 1204, 1221,
     1238, 1255, 1272, 1289, 1306, 1323, 1340, 1357, 1374, 1391, 1408, 1425, 1442, 1459,
     1476, 1493, 1510, 1527, 1544, 1561, 1578, 1595, 1612, 1629, 1646, 1663, 1680, 1697,
     1714, 1731, 1748, 1765, 1782, 1799, 1816, 1833, 1850, 1867, 1884, 1901, 1918, 1935]"

text \<open>
  C7. A leaf bucket in pool mode whose pool holds 56 distinct values is given a value \<open>x\<close>
  that is not among them. \<^verbatim>\<open>add\<close> returns true, the bucket is in bitmap mode afterwards
  (\<^verbatim>\<open>bits\<close> is non-nil), and \<^verbatim>\<open>has\<close> holds for exactly the 57 values: the 56 of the pool and
  \<open>x\<close>.
\<close>

theorem promotion_at_57th_value:
  assumes "bits b = None" and "length (smallPool b) = 56" and "smallPoolLen b = 56"
    and "distinct (smallPool b)" and "x \<notin> set (smallPool b)"
  shows "fst (bucket16_add b x) \<and> bits (snd (bucket16_add b x)) \<noteq> None \<and>
         (\<forall>y. bucket16_has (snd (bucket16_add b x)) y \<longleftrightarrow> y = x \<or> y \<in> set (smallPool b))"
proof -
  obtain ok b' where r: "bucket16_add b x = (ok, b')" by (cases "bucket16_add b x")
  have wf: "wf16 b" using assms by (simp add: wf16_def)
  have m: "members16 b = set (smallPool b)" using assms by (simp add: members16_def)
  from bucket16_add_members[OF wf r] m assms(5)
  have ok: "ok" and m': "members16 b' = insert x (set (smallPool b))" and wf': "wf16 b'"
    by simp_all
  have "bits b' \<noteq> None"
    using r assms
    by (auto simp: bucket16_add_def bucket16_addToSmallPool_def bucket16_hasInSmallPool_def
        firstIndex_None Let_def)
  with ok m' bucket16_has_members[OF wf'] r show ?thesis by simp
qed

theorem promotion_at_57th_value_witness:
  "fst (bucket16_add \<lparr>bits = None, smallPoolLen = 56, smallPool = pool56\<rparr> 7) \<and>
   bits (snd (bucket16_add \<lparr>bits = None, smallPoolLen = 56, smallPool = pool56\<rparr> 7)) \<noteq> None \<and>
   (\<forall>y. bucket16_has (snd (bucket16_add \<lparr>bits = None, smallPoolLen = 56, smallPool = pool56\<rparr> 7)) y
        \<longleftrightarrow> y = 7 \<or> y \<in> set pool56)"
proof -
  have d: "distinct pool56" by (simp add: pool56_def)
  have n: "(7 :: uint16) \<notin> set pool56" by (simp add: pool56_def)
  have l: "length pool56 = 56" by (simp add: pool56_def)
  show ?thesis
    using promotion_at_57th_value[of "\<lparr>bits = None, smallPoolLen = 56, smallPool = pool56\<rparr>" 7]
      d n l by simp
qed

text \<open>
  The number of values a leaf bucket reports: the used length of the pool, or the number
  of set bits of the bitmap.
\<close>

definition count16 :: "bucket16 \<Rightarrow> nat" where
  "count16 b =
     (case bits b of
        None \<Rightarrow> smallPoolLen b
      | Some ws \<Rightarrow> sum_list (map OnesCount64 ws))"

text \<open>The values of a bitmap as natural numbers, word by word and bit by bit.\<close>

definition bits_nats :: "nat \<Rightarrow> uint64 list \<Rightarrow> nat list" where
  "bits_nats k0 ws =
     concat (map (\<lambda>k. map (\<lambda>t. (k0 + k) * 64 + t) (filter (bit (ws ! k)) [0..<64]))
                 [0..<length ws])"

lemma bits_nats_Nil [simp]: "bits_nats k0 [] = []"
  by (simp add: bits_nats_def)

lemma bits_nats_Cons:
  "bits_nats k0 (w # ws) =
     map (\<lambda>t. k0 * 64 + t) (filter (bit w) [0..<64]) @ bits_nats (Suc k0) ws"
proof -
  have "[0..<length (w # ws)] = 0 # map Suc [0..<length ws]"
    by (simp add: upt_conv_Cons map_Suc_upt del: upt_Suc)
  then show ?thesis
    by (simp add: bits_nats_def comp_def add.commute add.left_commute del: upt_Suc)
qed

lemma set_bits_nats:
  "set (bits_nats k0 ws) =
     {n. k0 * 64 \<le> n \<and> n < (k0 + length ws) * 64 \<and> bit (ws ! (n div 64 - k0)) (n mod 64)}"
proof (induction ws arbitrary: k0)
  case Nil
  then show ?case by auto
next
  case (Cons w ws)
  have a: "set (map (\<lambda>t. k0 * 64 + t) (filter (bit w) [0..<64])) =
             {n. k0 * 64 \<le> n \<and> n < Suc k0 * 64 \<and> bit w (n mod 64)}" (is "?A = ?B")
  proof
    show "?A \<subseteq> ?B" by auto
    show "?B \<subseteq> ?A"
    proof
      fix n assume "n \<in> ?B"
      then have n: "k0 * 64 \<le> n" "n < Suc k0 * 64" "bit w (n mod 64)" by auto
      then have "n div 64 = k0" by (simp add: div_nat_eqI mult.commute)
      then have "n = k0 * 64 + n mod 64" by (metis div_mult_mod_eq)
      moreover have "n mod 64 \<in> set (filter (bit w) [0..<64])" using n by simp
      ultimately show "n \<in> ?A" by (metis (no_types, lifting) image_eqI set_map)
    qed
  qed
  have d: "\<And>n. k0 * 64 \<le> n \<Longrightarrow> n < Suc k0 * 64 \<Longrightarrow> n div 64 = k0"
    by (simp add: div_nat_eqI mult.commute)
  have e: "\<And>n. Suc k0 * 64 \<le> n \<Longrightarrow> n div 64 - k0 = Suc (n div 64 - Suc k0)"
  proof -
    fix n assume "Suc k0 * 64 \<le> n"
    then have "Suc k0 \<le> n div 64" by (simp add: less_eq_div_iff_mult_less_eq)
    then show "n div 64 - k0 = Suc (n div 64 - Suc k0)" by simp
  qed
  show ?case
    unfolding bits_nats_Cons set_append a Cons.IH
    apply (rule set_eqI)
    apply (simp only: Un_iff mem_Collect_eq)
    subgoal for n
      apply (cases "n < Suc k0 * 64")
      subgoal using d[of n] by auto
      subgoal using e[of n] by auto
      done
    done
qed

lemma bits_nats_bounds: "n \<in> set (bits_nats k0 ws) \<Longrightarrow> k0 * 64 \<le> n"
  by (simp add: set_bits_nats)

lemma sorted_bits_nats: "sorted_wrt (<) (bits_nats k0 ws)"
proof (induction ws arbitrary: k0)
  case Nil
  then show ?case by simp
next
  case (Cons w ws)
  have s1: "sorted_wrt (<) (map (\<lambda>t. k0 * 64 + t) (filter (bit w) [0..<64]))"
    by (simp add: sorted_wrt_map sorted_wrt_filter)
  have b: "\<forall>x\<in>set (map (\<lambda>t. k0 * 64 + t) (filter (bit w) [0..<64])).
             \<forall>y\<in>set (bits_nats (Suc k0) ws). x < y"
    using bits_nats_bounds[of _ "Suc k0" ws] by fastforce
  show ?case
    unfolding bits_nats_Cons sorted_wrt_append using s1 Cons.IH[of "Suc k0"] b by blast
qed

lemma length_bits_nats: "length (bits_nats k0 ws) = sum_list (map OnesCount64 ws)"
  by (induction ws arbitrary: k0) (simp_all add: bits_nats_Cons OnesCount64_def)


lemma filter_bit_lowest:
  assumes "t0 < 64" and "bit w t0" and "\<forall>n<t0. \<not> bit w n"
  shows "filter (bit (w :: uint64)) [0..<64] =
           t0 # filter (bit (w AND NOT (2 ^ t0))) [0..<64]"
proof -
  have u: "[0..<64] = [0..<t0] @ t0 # [Suc t0..<64]"
    using assms(1) by (metis le0 le_add_diff_inverse less_imp_le_nat upt_add_eq_append upt_conv_Cons)
  have f1: "filter (bit w) [0..<t0] = []" using assms(3) by (simp add: filter_empty_conv)
  have f2: "filter (bit (w AND NOT (2 ^ t0))) [0..<t0] = []"
    using assms(3) by (simp add: filter_empty_conv bit_clear_uint64)
  have f3: "filter (bit (w AND NOT (2 ^ t0))) [Suc t0..<64] = filter (bit w) [Suc t0..<64]"
    by (rule filter_cong) (auto simp: bit_clear_uint64)
  have f4: "\<not> bit (w AND NOT (2 ^ t0)) t0" by (simp add: bit_clear_uint64)
  show ?thesis
    unfolding u filter_append filter.simps f1 f2 f3 using assms(2) f4 by simp
qed

lemma filter_bit_zero:
  assumes "TrailingZeros64 w \<ge> 64"
  shows "filter (bit w) [0..<64] = []"
proof -
  have "\<forall>n<64. \<not> bit w n" using assms TrailingZeros64_least[of _ w] by auto
  then show ?thesis by (simp add: filter_empty_conv)
qed

lemma appendTo_word_eq:
  "appendTo_word w x64 dst = dst @ map (\<lambda>t. x64 OR of_nat t) (filter (bit w) [0..<64])"
proof (induction w x64 dst rule: appendTo_word.induct)
  case (1 word x64 dst)
  let ?t = "TrailingZeros64 word"
  show ?case
  proof (cases "?t \<ge> 64")
    case True
    then show ?thesis
      by (simp add: appendTo_word.simps[of word x64 dst] filter_bit_zero)
  next
    case False
    then have t: "?t < 64" by simp
    have f: "filter (bit word) [0..<64] = ?t # filter (bit (word AND NOT (2 ^ ?t))) [0..<64]"
      using filter_bit_lowest[OF t TrailingZeros64_bit[OF t]] TrailingZeros64_least[of _ word]
      by blast
    have "appendTo_word word x64 dst =
            appendTo_word (word AND NOT (push_bit ?t 1)) x64 (dst @ [x64 OR of_nat ?t])"
      using False by (simp add: appendTo_word.simps[of word x64 dst] Let_def)
    also have "\<dots> = (dst @ [x64 OR of_nat ?t]) @
        map (\<lambda>t. x64 OR of_nat t) (filter (bit (word AND NOT (push_bit ?t 1))) [0..<64])"
      using "1.IH"[OF refl False] by simp
    finally show ?thesis by (simp add: f)
  qed
qed

lemma shift6_or_eq_add:
  assumes "t < 64"
  shows "(a * 64) OR (of_nat t) = (a * 64 + of_nat t :: uint64)"
proof -
  have "(a * 64) AND (of_nat t :: uint64) = 0"
  proof (rule bit_eqI)
    fix n
    have a: "a * 64 = push_bit 6 a" by (simp add: push_bit_eq_mult)
    have "bit (of_nat t :: uint64) n \<Longrightarrow> n < 6"
    proof (rule ccontr)
      assume b: "bit (of_nat t :: uint64) n" and "\<not> n < 6"
      then have "6 \<le> n" by simp
      then have "(2::nat) ^ 6 \<le> 2 ^ n" by (rule power_increasing) simp
      with assms have "t < 2 ^ n" by simp
      then have "\<not> bit t n" by (simp add: bit_iff_odd)
      with b show False by (simp add: bit_of_nat_iff)
    qed
    then show "bit ((a * 64) AND (of_nat t :: uint64)) n = bit (0 :: uint64) n"
      unfolding a by (auto simp: bit_simps)
  qed
  then show ?thesis by (simp add: disjunctive_add_eq_or)
qed

lemma appendTo_words_eq:
  "appendTo_words ws hi64 (of_nat k0) dst =
     dst @ map (\<lambda>n. hi64 OR of_nat n) (bits_nats k0 ws)"
proof (induction ws arbitrary: k0 dst)
  case Nil
  then show ?case by simp
next
  case (Cons w ws)
  have k: "(of_nat k0 + 1 :: uint64) = of_nat (Suc k0)" by simp
  have m: "map (\<lambda>t. (hi64 OR of_nat k0 * 64) OR of_nat t) (filter (bit w) [0..<64]) =
           map ((\<lambda>n. hi64 OR of_nat n) \<circ> (\<lambda>t. k0 * 64 + t)) (filter (bit w) [0..<64])"
  proof (rule map_cong[OF refl])
    fix t assume "t \<in> set (filter (bit w) [0..<64])"
    then have "t < 64" by simp
    from shift6_or_eq_add[OF this, of "of_nat k0"]
    show "(hi64 OR of_nat k0 * 64) OR of_nat t = ((\<lambda>n. hi64 OR of_nat n) \<circ> (\<lambda>t. k0 * 64 + t)) t"
      by (simp add: or.assoc)
  qed
  show ?case
  proof (cases "w = 0")
    case True
    then have "filter (bit w) [0..<64] = []" by (simp add: filter_empty_conv)
    with True Cons.IH[of "Suc k0" dst] show ?thesis
      by (simp add: bits_nats_Cons k del: of_nat_Suc)
  next
    case False
    with Cons.IH[of "Suc k0"] show ?thesis
      by (simp add: bits_nats_Cons k appendTo_word_eq m del: of_nat_Suc)
  qed
qed


text \<open>
  \<open>mk64\<close> puts a value together from its three keys, as \<^verbatim>\<open>appendTo\<close> does. \<open>elems16\<close> lists
  the members of a leaf bucket in the order \<^verbatim>\<open>appendTo\<close> emits them.
\<close>

definition mk64 :: "uint32 \<Rightarrow> uint16 \<Rightarrow> uint16 \<Rightarrow> uint64" where
  "mk64 h h16 v = (push_bit 32 (ucast h) OR push_bit 16 (ucast h16)) OR ucast v"

definition elems16 :: "bucket16 \<Rightarrow> uint16 list" where
  "elems16 b =
     (case bits b of
        None \<Rightarrow> sort (take (smallPoolLen b) (smallPool b))
      | Some ws \<Rightarrow> map of_nat (bits_nats 0 ws))"

lemma unat_of_nat16: "n < 65536 \<Longrightarrow> unat (of_nat n :: uint16) = n"
  by (simp add: unat_of_nat)

lemma ucast_of_nat16: "n < 65536 \<Longrightarrow> (ucast (of_nat n :: uint16) :: uint64) = of_nat n"
  by (simp add: unat_of_nat16 unsigned_of_nat take_bit_nat_eq_self)

lemma unat16_lt: "unat (x :: uint16) < 65536"
  using unsigned_less[of x, where 'a=nat] by simp

lemma bits_nats_lt:
  "length ws = wordsPerBucket \<Longrightarrow> n \<in> set (bits_nats 0 ws) \<Longrightarrow> n < 65536"
  by (simp add: set_bits_nats wordsPerBucket_def bitsPerBucket_def)

lemma set_bits_elems:
  assumes "length ws = wordsPerBucket"
  shows "set (map of_nat (bits_nats 0 ws) :: uint16 list) = {x. bits_member ws x}"
proof (rule set_eqI)
  fix x :: uint16
  show "x \<in> set (map of_nat (bits_nats 0 ws)) \<longleftrightarrow> x \<in> {x. bits_member ws x}"
  proof
    assume "x \<in> set (map of_nat (bits_nats 0 ws))"
    then obtain n where n: "n \<in> set (bits_nats 0 ws)" "x = of_nat n" by auto
    from bits_nats_lt[OF assms n(1)] have "unat x = n" by (simp add: n(2) unat_of_nat16)
    with n(1) show "x \<in> {x. bits_member ws x}"
      by (simp add: set_bits_nats bits_member_def)
  next
    assume "x \<in> {x. bits_member ws x}"
    then have "unat x \<in> set (bits_nats 0 ws)"
      using unat16_lt[of x] assms
      by (simp add: set_bits_nats bits_member_def wordsPerBucket_def bitsPerBucket_def)
    moreover have "x = of_nat (unat x)" by simp
    ultimately show "x \<in> set (map of_nat (bits_nats 0 ws))"
      by (metis (no_types, lifting) image_eqI set_map)
  qed
qed

lemma sorted_bits_elems:
  assumes "length ws = wordsPerBucket"
  shows "sorted_wrt (<) (map of_nat (bits_nats 0 ws) :: uint16 list)"
proof -
  have "sorted_wrt (\<lambda>m n. (of_nat m :: uint16) < of_nat n) (bits_nats 0 ws)"
  proof (rule sorted_wrt_mono_rel[OF _ sorted_bits_nats])
    fix m n assume "m \<in> set (bits_nats 0 ws)" "n \<in> set (bits_nats 0 ws)" "m < n"
    with bits_nats_lt[OF assms] show "(of_nat m :: uint16) < of_nat n"
      by (simp add: word_less_nat_alt unat_of_nat16)
  qed
  then show ?thesis by (simp add: sorted_wrt_map)
qed

lemma sorted_elems16: "wf16 b \<Longrightarrow> sorted_wrt (<) (elems16 b)"
proof (cases "bits b")
  case None
  assume "wf16 b"
  with None show ?thesis by (simp add: elems16_def wf16_def strict_sorted_iff)
next
  case (Some ws)
  assume "wf16 b"
  with Some have "length ws = wordsPerBucket" by (simp add: wf16_def)
  from sorted_bits_elems[OF this] Some show ?thesis by (simp only: elems16_def option.case)
qed

lemma set_elems16: "wf16 b \<Longrightarrow> set (elems16 b) = members16 b"
proof (cases "bits b")
  case None
  then show ?thesis by (simp add: elems16_def members16_def)
next
  case (Some ws)
  assume "wf16 b"
  with Some have "length ws = wordsPerBucket" by (simp add: wf16_def)
  from set_bits_elems[OF this] Some show ?thesis
    by (simp only: elems16_def members16_def option.case)
qed

lemma length_elems16: "wf16 b \<Longrightarrow> length (elems16 b) = count16 b"
  by (auto simp: elems16_def wf16_def count16_def length_bits_nats split: option.splits)

lemma distinct_elems16: "wf16 b \<Longrightarrow> distinct (elems16 b)"
  using sorted_elems16[of b] by (simp add: strict_sorted_iff)

lemma card_members16: "wf16 b \<Longrightarrow> card (members16 b) = count16 b"
  using distinct_card[OF distinct_elems16, of b] by (simp add: set_elems16 length_elems16)

lemma finite_members16 [simp]: "finite (members16 b)"
  by simp

lemma sort_short: "length xs \<le> 1 \<Longrightarrow> sort xs = xs"
  by (cases xs) (auto simp: le_Suc_eq)

lemma sort_if_long: "(if length xs > 1 then sort xs else xs) = sort xs"
  by (cases "length xs > 1") (simp_all add: sort_short)

lemma bucket16_appendTo_eq:
  assumes "wf16 b"
  shows "fst (bucket16_appendTo b dst h h16) = dst @ map (mk64 h h16) (elems16 b)"
    and "wf16 (snd (bucket16_appendTo b dst h h16))"
    and "members16 (snd (bucket16_appendTo b dst h h16)) = members16 b"
    and "elems16 (snd (bucket16_appendTo b dst h h16)) = elems16 b"
proof -
  let ?hi64 = "push_bit 32 (ucast h :: uint64) OR push_bit 16 (ucast h16 :: uint64)"
  show "fst (bucket16_appendTo b dst h h16) = dst @ map (mk64 h h16) (elems16 b)"
  proof (cases "bits b")
    case None
    let ?a = "take (smallPoolLen b) (smallPool b)"
    from None show ?thesis
      unfolding bucket16_appendTo_def Let_def sort_if_long
      by (simp add: elems16_def mk64_def[abs_def])
  next
    case (Some ws)
    with assms have l: "length ws = wordsPerBucket" by (simp add: wf16_def)
    have "map (\<lambda>n. ?hi64 OR of_nat n) (bits_nats 0 ws) =
          map (mk64 h h16 \<circ> of_nat) (bits_nats 0 ws)"
      by (rule map_cong[OF refl]) (simp add: mk64_def ucast_of_nat16 bits_nats_lt[OF l])
    with Some appendTo_words_eq[of ws ?hi64 0 dst] show ?thesis
      by (simp add: bucket16_appendTo_def elems16_def Let_def)
  qed
  have pool: "bits b = None \<Longrightarrow>
      take (smallPoolLen b) (sort (take (smallPoolLen b) (smallPool b)) @ drop (smallPoolLen b) (smallPool b))
        = sort (take (smallPoolLen b) (smallPool b))"
    using assms by (simp add: wf16_def min_def)
  have snd_eq: "snd (bucket16_appendTo b dst h h16) =
      (case bits b of
         None \<Rightarrow> b\<lparr>smallPool := sort (take (smallPoolLen b) (smallPool b))
                                   @ drop (smallPoolLen b) (smallPool b)\<rparr>
       | Some ws \<Rightarrow> b)"
    unfolding bucket16_appendTo_def Let_def sort_if_long by (simp split: option.splits)
  show "wf16 (snd (bucket16_appendTo b dst h h16))"
    using assms pool unfolding snd_eq by (auto simp: wf16_def split: option.splits)
  show "members16 (snd (bucket16_appendTo b dst h h16)) = members16 b"
    using assms pool unfolding snd_eq by (auto simp: members16_def split: option.splits)
  show "elems16 (snd (bucket16_appendTo b dst h h16)) = elems16 b"
    using assms pool unfolding snd_eq
    by (auto simp: elems16_def sorted_sort_id split: option.splits)
qed

end
